theory Spec2Isabelle
  imports Main "HOL-Library.Sublist" "HOL-Library.Word"
begin

section \<open>JavaScript strings\<close>

text \<open>
  A JavaScript string is a finite sequence of UTF-16 code units; \<open>.length\<close>, \<open>slice\<close>,
  \<open>includes\<close> and regular expressions without the \<open>u\<close> flag all work on code units.
  Every Hangul syllable used by the component lies in the Basic Multilingual Plane and is
  one code unit.
\<close>

type_synonym jchar = "16 word"
type_synonym jstring = "jchar list"

text \<open>
  The code units that the regular-expression class \<open>\s\<close> matches and that \<open>trim()\<close>
  strips (ECMAScript WhiteSpace and LineTerminator: TAB, LF, VT, FF, CR, SP, NBSP,
  U+1680, U+2000..U+200A, LS, PS, U+202F, U+205F, U+3000, U+FEFF).
\<close>

definition is_ws :: "jchar \<Rightarrow> bool" where
  "is_ws c \<longleftrightarrow>
     c = 0x09 \<or> c = 0x0A \<or> c = 0x0B \<or> c = 0x0C \<or> c = 0x0D \<or> c = 0x20 \<or> c = 0xA0 \<or>
     c = 0x1680 \<or> (0x2000 \<le> c \<and> c \<le> 0x200A) \<or> c = 0x2028 \<or> c = 0x2029 \<or>
     c = 0x202F \<or> c = 0x205F \<or> c = 0x3000 \<or> c = 0xFEFF"

text \<open>\<open>String.prototype.trim\<close>: white space removed from both ends.\<close>

definition trim :: "jstring \<Rightarrow> jstring" where
  "trim s = rev (dropWhile is_ws (rev (dropWhile is_ws s)))"

text \<open>
  \<open>s.replace(new RegExp(word, 'g'), rep)\<close> for a \<open>word\<close> without regular-expression
  metacharacters: every occurrence of \<open>word\<close>, found left to right and not overlapping,
  is replaced by \<open>rep\<close>. An empty pattern matches before every code unit and at the end.
\<close>

fun replaceAll :: "jstring \<Rightarrow> jstring \<Rightarrow> jstring \<Rightarrow> jstring" where
  "replaceAll [] rep s = concat (map (\<lambda>c. rep @ [c]) s) @ rep"
| "replaceAll (p # ps) rep [] = []"
| "replaceAll (p # ps) rep (c # cs) =
     (if prefix (p # ps) (c # cs) then rep @ replaceAll (p # ps) rep (drop (length ps) cs)
      else c # replaceAll (p # ps) rep cs)"

text \<open>The separator class \<open>[\s,/]\<close> of the split.\<close>

definition is_sep :: "jchar \<Rightarrow> bool" where
  "is_sep c \<longleftrightarrow> is_ws c \<or> c = 0x2C \<or> c = 0x2F"

text \<open>
  \<open>s.split(/[\s,/]+/)\<close>: the pieces between the maximal runs of separator code units.
  A run at the very start or the very end leaves an empty piece there, and a string
  without a separator is returned whole (the empty string gives one empty piece).
\<close>

function split_seps :: "jstring \<Rightarrow> jstring list" where
  "split_seps s =
     (case dropWhile (\<lambda>c. \<not> is_sep c) s of
        [] \<Rightarrow> [s]
      | c # rest \<Rightarrow> takeWhile (\<lambda>c. \<not> is_sep c) s # split_seps (dropWhile is_sep rest))"
  by pat_completeness auto
termination
proof (relation "measure length")
  fix s :: jstring and c rest
  assume h: "dropWhile (\<lambda>c. \<not> is_sep c) s = c # rest"
  have "length (dropWhile is_sep rest) \<le> length rest"
    by (rule length_dropWhile_le)
  moreover have "length (c # rest) \<le> length s"
    unfolding h [symmetric] by (rule length_dropWhile_le)
  ultimately show "(dropWhile is_sep rest, s) \<in> measure length"
    by simp
qed simp

declare split_seps.simps [simp del]

text \<open>\<open>text.includes(pat)\<close>: \<open>pat\<close> occurs in \<open>text\<close> as a contiguous run of code units.\<close>

fun str_includes :: "jstring \<Rightarrow> jstring \<Rightarrow> bool" where
  "str_includes [] pat \<longleftrightarrow> pat = []"
| "str_includes (c # cs) pat \<longleftrightarrow> prefix pat (c # cs) \<or> str_includes cs pat"

section \<open>Keyword extraction\<close>

text \<open>
  The three stop words (U+C815 U+C0C1 U+C11D "summit stone", the slash, and
  U+C778 U+C99D "certification"), the three suffix code units (U+BD09 "peak",
  U+C0B0 "mountain", U+B300 "platform") and the summit keyword (U+C815 U+C0C1).
\<close>

definition stopWords :: "jstring list" where
  "stopWords = [[0xC815, 0xC0C1, 0xC11D], [0x2F], [0xC778, 0xC99D]]"

definition suffixChars :: "jchar list" where
  "suffixChars = [0xBD09, 0xC0B0, 0xB300]"

definition summitKeyword :: "jstring" where
  "summitKeyword = [0xC815, 0xC0C1]"

text \<open>The loop over the stop words: each is replaced by one space, in turn.\<close>

definition removeStopWords :: "jstring \<Rightarrow> jstring" where
  "removeStopWords certPoint = fold (\<lambda>word cleaned. replaceAll word [0x20] cleaned) stopWords certPoint"

definition baseKeywords :: "jstring \<Rightarrow> jstring list" where
  "baseKeywords certPoint =
     filter (\<lambda>w. 2 \<le> length w) (map trim (split_seps (removeStopWords certPoint)))"

text \<open>
  A JavaScript \<open>Set\<close> of strings keeps its members in insertion order without
  duplicates; \<open>add\<close> of a member already present changes nothing.
\<close>

definition set_add :: "jstring \<Rightarrow> jstring list \<Rightarrow> jstring list" where
  "set_add x xs = (if x \<in> set xs then xs else xs @ [x])"

text \<open>
  The test of the keyword against the suffix class anchored at the end of the input
  looks at the last code unit of a non-empty keyword, and
  \<open>kw.slice(0, -1)\<close> drops it.
\<close>

definition endsWithSuffixChar :: "jstring \<Rightarrow> bool" where
  "endsWithSuffixChar kw \<longleftrightarrow> kw \<noteq> [] \<and> last kw \<in> set suffixChars"

fun expandKeywords :: "jstring list \<Rightarrow> jstring list \<Rightarrow> jstring list" where
  "expandKeywords expanded [] = expanded"
| "expandKeywords expanded (kw # kws) =
     (let expanded1 = set_add kw expanded;
          expanded2 =
            (if 3 \<le> length kw \<and> endsWithSuffixChar kw
             then (let shortened = butlast kw
                   in if 2 \<le> length shortened then set_add shortened expanded1 else expanded1)
             else expanded1)
      in expandKeywords expanded2 kws)"

text \<open>
  \<open>extractCertKeywords\<close>. The argument is \<open>string | undefined\<close>; \<open>!certPoint\<close> holds for
  \<open>undefined\<close> (\<open>None\<close>) and for the empty string.
\<close>

definition extractCertKeywords :: "jstring option \<Rightarrow> jstring list" where
  "extractCertKeywords certPoint =
     (case certPoint of
        None \<Rightarrow> []
      | Some s \<Rightarrow>
          if s = [] then []
          else (let keywords = expandKeywords [] (baseKeywords s)
                in if summitKeyword \<in> set keywords then keywords
                   else keywords @ [summitKeyword]))"

section \<open>Course matching\<close>

text \<open>
  \<open>String.prototype.toLowerCase\<close> is a library function of the JavaScript engine (full
  Unicode case mapping). The matcher takes it as the parameter \<open>lc\<close>, so that what is
  proved of the matcher holds for whatever the engine computes. Where a concrete input is
  evaluated, \<open>toLowerCaseAscii\<close> stands for it: it maps the code units of A..Z to a..z and
  keeps every other code unit, which is what \<open>toLowerCase\<close> does on ASCII and Hangul text.
\<close>

definition toLowerCaseAscii :: "jstring \<Rightarrow> jstring" where
  "toLowerCaseAscii s = map (\<lambda>c. if 0x41 \<le> c \<and> c \<le> 0x5A then c + 0x20 else c) s"

text \<open>
  \<open>matchesCertPoint\<close>: the text is the template literal of the course name, one space
  (U+0020) and the detail, lower-cased; \<open>keywords.some\<close> is \<open>list_ex\<close>.
\<close>

definition matchesCertPoint ::
  "(jstring \<Rightarrow> jstring) \<Rightarrow> jstring \<Rightarrow> jstring \<Rightarrow> jstring list \<Rightarrow> bool" where
  "matchesCertPoint lc courseName detail keywords =
     (if length keywords = 0 then True
      else (let text = lc (courseName @ [0x20] @ detail)
            in list_ex (\<lambda>kw. str_includes text (lc kw)) keywords))"

text \<open>
  The matcher as the specification words it: the same steps, with the separator between
  course name and detail left open.
\<close>

definition matches_with_separator ::
  "(jstring \<Rightarrow> jstring) \<Rightarrow> jstring \<Rightarrow> jstring \<Rightarrow> jstring \<Rightarrow> jstring list \<Rightarrow> bool" where
  "matches_with_separator lc separator courseName detail keywords =
     (if keywords = [] then True
      else list_ex (\<lambda>kw. str_includes (lc (courseName @ separator @ detail)) (lc kw)) keywords)"

section \<open>The trail map component\<close>

text \<open>
  Modelled from the spec: the type declaration \<open>NationalParkTrailData\<close> is not among the
  sources. The course collection is an ordered list of objects that expose a name and a
  detail; the component reads it through \<open>features\<close>, and each feature through
  \<open>properties.name\<close> and \<open>properties.detail\<close>, either of which may be missing
  (\<open>None\<close>). The geometry, the centre and the summit play no part in the selection.
  \<open>x || ''\<close> turns a missing or empty property into the empty string.
\<close>

record feature_properties =
  name :: "jstring option"
  detail :: "jstring option"

record feature =
  properties :: feature_properties

record np_trail_data =
  features :: "feature list"

datatype data_source = national_park | forest_service

definition or_empty :: "jstring option \<Rightarrow> jstring" where
  "or_empty x = (case x of None \<Rightarrow> [] | Some s \<Rightarrow> s)"

text \<open>
  The state of \<open>TrailMap\<close> kept by \<open>useState\<close>. The forest-service track
  (\<open>trailData\<close>, GPS coordinates) is not part of the model; nothing below reads it.
\<close>

record trail_map_state =
  npTrailData :: "np_trail_data option"
  dataSource :: "data_source option"
  loading :: bool
  error :: "jstring option"
  selectedCourses :: "nat set"

text \<open>
  The test that both \<open>fetchTrailData\<close> and \<open>NationalParkMap\<close> apply to a feature.
\<close>

definition featureMatches :: "(jstring \<Rightarrow> jstring) \<Rightarrow> jstring list \<Rightarrow> feature \<Rightarrow> bool" where
  "featureMatches lc keywords f =
     matchesCertPoint lc (or_empty (name (properties f))) (or_empty (detail (properties f))) keywords"




text \<open>\<open>toggleCourse\<close>: a copy of the previous selection with the index removed or added.\<close>

definition toggleCourse :: "nat \<Rightarrow> trail_map_state \<Rightarrow> trail_map_state" where
  "toggleCourse index st =
     st\<lparr>selectedCourses :=
          (let prev = selectedCourses st
           in if index \<in> prev then prev - {index} else insert index prev)\<rparr>"

text \<open>
  What \<open>NationalParkMap\<close> computes before it renders: the match flag of every course, the
  number of matching courses, the indices of the courses that get a button in the course
  list (a course is left out when some course matches and this one does not), and whether
  the orange advisory paragraph is rendered (\<open>certificationPoint\<close> is truthy when it is
  present and not empty).
\<close>

definition courseMatches :: "(jstring \<Rightarrow> jstring) \<Rightarrow> jstring option \<Rightarrow> np_trail_data \<Rightarrow> bool list" where
  "courseMatches lc certificationPoint data =
     map (featureMatches lc (extractCertKeywords certificationPoint)) (features data)"

definition matchingCount :: "(jstring \<Rightarrow> jstring) \<Rightarrow> jstring option \<Rightarrow> np_trail_data \<Rightarrow> nat" where
  "matchingCount lc certificationPoint data =
     length (filter (\<lambda>b. b) (courseMatches lc certificationPoint data))"

definition courseButtons :: "(jstring \<Rightarrow> jstring) \<Rightarrow> jstring option \<Rightarrow> np_trail_data \<Rightarrow> nat list" where
  "courseButtons lc certificationPoint data =
     filter (\<lambda>idx. \<not> (0 < matchingCount lc certificationPoint data
                       \<and> \<not> courseMatches lc certificationPoint data ! idx))
       [0 ..< length (features data)]"



section \<open>Example data\<close>

text \<open>
  The inputs of the end-to-end examples: a certification label naming two landmarks
  (U+C11C U+C11D U+B300 and U+C778 U+C655 U+BD09, each followed by a space and the stop word
  "summit stone", separated by a slash and a space), three courses named after the first
  landmark, the second landmark and neither (each name ending in U+CF54 U+C2A4 "course"),
  a label matching no course (U+BBF8 U+C0C1 U+BD09), and the initial component state.
\<close>

definition example_label :: jstring where
  "example_label =
     [0xC11C, 0xC11D, 0xB300, 0x0020, 0xC815, 0xC0C1, 0xC11D, 0x002F, 0x0020,
      0xC778, 0xC655, 0xBD09, 0x0020, 0xC815, 0xC0C1, 0xC11D]"


definition unmatched_label :: jstring where
  "unmatched_label = [0xBBF8, 0xC0C1, 0xBD09]"

definition loading_state :: trail_map_state where
  "loading_state =
     \<lparr>npTrailData = None, dataSource = None, loading = True, error = None,
      selectedCourses = {}\<rparr>"

text \<open>
  The set of matching course indices: the positions of the courses whose name and detail
  match the keyword set of the certification label.
\<close>

definition matching_courses :: "(jstring \<Rightarrow> jstring) \<Rightarrow> jstring option \<Rightarrow> np_trail_data \<Rightarrow> nat set" where
  "matching_courses lc certificationPoint data =
     {i. i < length (features data) \<and>
         featureMatches lc (extractCertKeywords certificationPoint) (features data ! i)}"

section \<open>Facts about the string operations\<close>

lemma dropWhile_none: "\<forall>x\<in>set xs. \<not> P x \<Longrightarrow> dropWhile P xs = xs"
  by (cases xs) auto

lemma trim_no_ws: "\<forall>c\<in>set s. \<not> is_ws c \<Longrightarrow> trim s = s"
  by (simp add: trim_def dropWhile_none)

lemma split_seps_Nil:
  "dropWhile (\<lambda>c. \<not> is_sep c) s = [] \<Longrightarrow> split_seps s = [s]"
  by (subst split_seps.simps) (simp only: list.case)

lemma split_seps_Cons:
  "dropWhile (\<lambda>c. \<not> is_sep c) s = d # rest \<Longrightarrow>
     split_seps s = takeWhile (\<lambda>c. \<not> is_sep c) s # split_seps (dropWhile is_sep rest)"
  by (subst split_seps.simps) (simp only: list.case)

lemma split_seps_no_sep: "t \<in> set (split_seps s) \<Longrightarrow> c \<in> set t \<Longrightarrow> \<not> is_sep c"
proof (induction s arbitrary: t rule: split_seps.induct)
  case (1 s)
  show ?case
  proof (cases "dropWhile (\<lambda>c. \<not> is_sep c) s")
    case Nil
    then have "\<forall>x\<in>set s. \<not> is_sep x" by (simp add: dropWhile_eq_Nil_conv)
    moreover from "1.prems"(1) have "t = s" by (simp add: split_seps_Nil [OF Nil])
    ultimately show ?thesis using "1.prems"(2) by blast
  next
    case (Cons d rest)
    with "1.prems"(1) have "t = takeWhile (\<lambda>c. \<not> is_sep c) s \<or> t \<in> set (split_seps (dropWhile is_sep rest))"
      by (simp add: split_seps_Cons [OF Cons])
    then show ?thesis
    proof
      assume "t = takeWhile (\<lambda>c. \<not> is_sep c) s"
      with "1.prems"(2) show ?thesis by (auto dest: set_takeWhileD)
    next
      assume "t \<in> set (split_seps (dropWhile is_sep rest))"
      then show ?thesis using "1.IH" [OF Cons] "1.prems"(2) by blast
    qed
  qed
qed

lemma baseKeywords_props:
  assumes "kw \<in> set (baseKeywords s)"
  shows "2 \<le> length kw" and "\<forall>c\<in>set kw. \<not> is_ws c"
proof -
  from assms obtain t where t: "t \<in> set (split_seps (removeStopWords s))" and kw: "kw = trim t"
    and len: "2 \<le> length kw"
    by (auto simp: baseKeywords_def)
  have nosep: "\<forall>c\<in>set t. \<not> is_sep c" using split_seps_no_sep [OF t] by blast
  then have "\<forall>c\<in>set t. \<not> is_ws c" by (auto simp: is_sep_def)
  then have "trim t = t" by (rule trim_no_ws)
  with kw \<open>\<forall>c\<in>set t. \<not> is_ws c\<close> show "\<forall>c\<in>set kw. \<not> is_ws c" by simp
  from len show "2 \<le> length kw" .
qed

lemma str_includes_sublist: "str_includes t p \<longleftrightarrow> sublist p t"
  by (induction t) (auto simp: sublist_Cons_right)

lemma set_add_set: "set (set_add x xs) = insert x (set xs)"
  by (auto simp: set_add_def)

lemma expandKeywords_set:
  "set (expandKeywords acc kws) =
     set acc \<union> set kws \<union>
     {butlast kw | kw. kw \<in> set kws \<and> 3 \<le> length kw \<and> endsWithSuffixChar kw}"
proof (induction kws arbitrary: acc)
  case Nil
  show ?case by simp
next
  case (Cons k kws)
  let ?B = "\<lambda>ks. {butlast kw | kw. kw \<in> set ks \<and> 3 \<le> length kw \<and> endsWithSuffixChar kw}"
  show ?case
  proof (cases "3 \<le> length k \<and> endsWithSuffixChar k")
    case True
    then have len: "2 \<le> length (butlast k)" by auto
    from True have B: "?B (k # kws) = insert (butlast k) (?B kws)" by auto
    from True len have "expandKeywords acc (k # kws) =
        expandKeywords (set_add (butlast k) (set_add k acc)) kws"
      by (simp add: Let_def)
    then show ?thesis
      unfolding B by (simp add: Cons.IH set_add_set)
  next
    case False
    then have B: "?B (k # kws) = ?B kws" by auto
    from False have "expandKeywords acc (k # kws) = expandKeywords (set_add k acc) kws"
      by (auto simp: Let_def)
    then show ?thesis
      unfolding B by (simp add: Cons.IH set_add_set)
  qed
qed

lemma extract_set:
  "s \<noteq> [] \<Longrightarrow> set (extractCertKeywords (Some s)) =
     insert summitKeyword (set (baseKeywords s) \<union>
       {butlast kw | kw. kw \<in> set (baseKeywords s) \<and> 3 \<le> length kw \<and> endsWithSuffixChar kw})"
  by (auto simp: extractCertKeywords_def Let_def expandKeywords_set)

lemma baseKeywords_empty: "baseKeywords [] = []"
  by (simp add: baseKeywords_def removeStopWords_def stopWords_def split_seps_Nil trim_def)

lemma butlast_no_ws: "\<forall>c\<in>set kw. \<not> is_ws c \<Longrightarrow> \<forall>c\<in>set (butlast kw). \<not> is_ws c"
  by (auto dest: in_set_butlastD)

lemma extract_keyword_shape:
  assumes "kw \<in> set (extractCertKeywords label)"
  shows "2 \<le> length kw \<and> (\<forall>c\<in>set kw. \<not> is_ws c)"
proof -
  from assms obtain s where s: "label = Some s" "s \<noteq> []"
    by (auto simp: extractCertKeywords_def split: option.splits if_splits)
  from assms s consider "kw = summitKeyword" | "kw \<in> set (baseKeywords s)"
    | b where "b \<in> set (baseKeywords s)" "3 \<le> length b" "kw = butlast b"
    by (auto simp: extract_set)
  then show ?thesis
  proof cases
    case 1
    then show ?thesis by (simp add: summitKeyword_def is_ws_def)
  next
    case 2
    then show ?thesis using baseKeywords_props by blast
  next
    case 3
    then show ?thesis using baseKeywords_props(2) [OF 3(1)] butlast_no_ws by simp
  qed
qed

section \<open>Facts about matching and the component\<close>


lemma matchingCount_card:
  "matchingCount lc cp data = card (matching_courses lc cp data)"
  by (simp add: matchingCount_def courseMatches_def matching_courses_def filter_map comp_def
      length_filter_conv_card)

lemma finite_matching: "finite (matching_courses lc cp data)"
  by (simp add: matching_courses_def)

lemma matchingCount_zero:
  "matchingCount lc cp data = 0 \<longleftrightarrow> matching_courses lc cp data = {}"
  by (simp add: matchingCount_card finite_matching)


lemma courseButtons_none:
  "matching_courses lc cp data = {} \<Longrightarrow> courseButtons lc cp data = [0 ..< length (features data)]"
  by (simp add: courseButtons_def matchingCount_zero)


lemma matchesCertPoint_sublist:
  "matchesCertPoint lc n d ks \<longleftrightarrow>
     ks = [] \<or> (\<exists>kw\<in>set ks. sublist (lc kw) (lc (n @ [0x20] @ d)))"
  by (simp add: matchesCertPoint_def Let_def list_ex_iff str_includes_sublist)

lemma matches_with_separator_sublist:
  "matches_with_separator lc sep n d ks \<longleftrightarrow>
     ks = [] \<or> (\<exists>kw\<in>set ks. sublist (lc kw) (lc (n @ sep @ d)))"
  by (simp add: matches_with_separator_def list_ex_iff str_includes_sublist)

lemma matchesCertPoint_separator:
  "matchesCertPoint lc n d ks = matches_with_separator lc [0x20] n d ks"
  by (simp add: matchesCertPoint_sublist matches_with_separator_sublist)

lemma sublist_skip_disjoint:
  "set p \<inter> set s = {} \<Longrightarrow> p \<noteq> [] \<Longrightarrow> sublist p (s @ b) \<longleftrightarrow> sublist p b"
proof (induction s)
  case Nil
  show ?case by simp
next
  case (Cons x s)
  from Cons.prems have "\<not> prefix p (x # s @ b)"
    by (cases p) auto
  with Cons show ?case by (simp add: sublist_Cons_right)
qed

lemma sublist_across_separator:
  assumes disj: "set p \<inter> set s = {}" and s: "s \<noteq> []"
  shows "sublist p (a @ s @ b) \<longleftrightarrow> sublist p a \<or> sublist p b"
proof (cases "p = []")
  case True
  then show ?thesis by simp
next
  case False
  have straddle: "\<not> (\<exists>p1 p2. p = p1 @ p2 \<and> p1 \<noteq> [] \<and> p2 \<noteq> [] \<and> suffix p1 a \<and> prefix p2 (s @ b))"
  proof
    assume "\<exists>p1 p2. p = p1 @ p2 \<and> p1 \<noteq> [] \<and> p2 \<noteq> [] \<and> suffix p1 a \<and> prefix p2 (s @ b)"
    then obtain p1 p2 where p: "p = p1 @ p2" and p2: "p2 \<noteq> []" and pre: "prefix p2 (s @ b)"
      by blast
    from s p2 pre have "hd p2 = hd s"
      by (cases p2; cases s) auto
    with s p2 p have "hd s \<in> set p \<inter> set s"
      using hd_in_set [of p2] hd_in_set [of s] by auto
    with disj show False by simp
  qed
  have "sublist p (a @ s @ b) \<longleftrightarrow>
      sublist p a \<or> sublist p (s @ b) \<or>
      (\<exists>p1 p2. p = p1 @ p2 \<and> suffix p1 a \<and> prefix p2 (s @ b))"
    by (rule sublist_append)
  also have "(\<exists>p1 p2. p = p1 @ p2 \<and> suffix p1 a \<and> prefix p2 (s @ b)) \<longrightarrow>
      sublist p a \<or> sublist p (s @ b)"
  proof
    assume "\<exists>p1 p2. p = p1 @ p2 \<and> suffix p1 a \<and> prefix p2 (s @ b)"
    then obtain p1 p2 where h: "p = p1 @ p2" "suffix p1 a" "prefix p2 (s @ b)" by blast
    with straddle have "p1 = [] \<or> p2 = []" by blast
    with h show "sublist p a \<or> sublist p (s @ b)" by auto
  qed
  then have "(sublist p a \<or> sublist p (s @ b) \<or>
      (\<exists>p1 p2. p = p1 @ p2 \<and> suffix p1 a \<and> prefix p2 (s @ b))) \<longleftrightarrow>
      sublist p a \<or> sublist p (s @ b)" by blast
  also have "sublist p (s @ b) \<longleftrightarrow> sublist p b"
    using disj False by (rule sublist_skip_disjoint)
  finally show ?thesis .
qed




section \<open>The claims\<close>



text \<open>
  C2 (fail-open on the empty keyword set). For every course name and every course detail,
  the empty strings included, the matching function returns true when the keyword set is
  empty.
\<close>

theorem matchesCertPoint_fail_open:
  "matchesCertPoint lc courseName courseDetail [] = True"
  by (simp add: matchesCertPoint_def)

theorem matchesCertPoint_fail_open_witness:
  "matchesCertPoint toLowerCaseAscii [] [] [] = True \<and>
   matchesCertPoint toLowerCaseAscii [0xAE30, 0xD0C0, 0xCF54, 0xC2A4] [] [] = True"
  using matchesCertPoint_fail_open [of toLowerCaseAscii "[]" "[]"]
    matchesCertPoint_fail_open [of toLowerCaseAscii "[0xAE30, 0xD0C0, 0xCF54, 0xC2A4]" "[]"]
  by simp

text \<open>
  C3 (matching predicate). For every course name, course detail and non-empty keyword set,
  the matching function returns true if and only if the lower-cased form of at least one
  keyword occurs as a contiguous run of code units in the lower-cased text, the text being
  the concatenation as the matcher builds it: the course name, one space, the course
  detail. In particular the course named U+B458 U+B808 U+AE38 with detail
  U+B2E8 U+C21C U+0020 U+C21C U+D658 U+B85C does not match the keyword set of
  U+CC9C U+C655 U+BD09 and U+CC9C U+C655.
\<close>

theorem matchesCertPoint_iff_keyword_occurs:
  "(ks \<noteq> [] \<longrightarrow>
      (matchesCertPoint lc courseName courseDetail ks \<longleftrightarrow>
         (\<exists>kw\<in>set ks. \<exists>before after.
             lc (courseName @ [0x20] @ courseDetail) = before @ lc kw @ after))) \<and>
   matchesCertPoint toLowerCaseAscii [0xB458, 0xB808, 0xAE38]
      [0xB2E8, 0xC21C, 0x20, 0xC21C, 0xD658, 0xB85C]
      [[0xCC9C, 0xC655, 0xBD09], [0xCC9C, 0xC655]] = False"
proof
  show "ks \<noteq> [] \<longrightarrow>
      (matchesCertPoint lc courseName courseDetail ks \<longleftrightarrow>
         (\<exists>kw\<in>set ks. \<exists>before after.
             lc (courseName @ [0x20] @ courseDetail) = before @ lc kw @ after))"
    by (simp add: matchesCertPoint_sublist sublist_def)
  show "matchesCertPoint toLowerCaseAscii [0xB458, 0xB808, 0xAE38]
      [0xB2E8, 0xC21C, 0x20, 0xC21C, 0xD658, 0xB85C]
      [[0xCC9C, 0xC655, 0xBD09], [0xCC9C, 0xC655]] = False"
    by code_simp
qed

theorem matchesCertPoint_iff_keyword_occurs_witness:
  "matchesCertPoint toLowerCaseAscii [0xCC9C, 0xC655, 0xBD09, 0x0020, 0xCF54, 0xC2A4]
      [0xC9C0, 0xB9AC, 0xC0B0] [[0xB178, 0xC778], [0xCC9C, 0xC655]]"
proof -
  let ?ks = "[[0xB178, 0xC778], [0xCC9C, 0xC655 :: jchar]]"
  let ?text = "toLowerCaseAscii ([0xCC9C, 0xC655, 0xBD09, 0x0020, 0xCF54, 0xC2A4] @ [0x20] @
              [0xC9C0, 0xB9AC, 0xC0B0])"
  have ne: "?ks \<noteq> []" by simp
  have "?text = [] @ toLowerCaseAscii [0xCC9C, 0xC655] @
              [0xBD09, 0x0020, 0xCF54, 0xC2A4, 0x20, 0xC9C0, 0xB9AC, 0xC0B0]"
    by (simp add: toLowerCaseAscii_def)
  then have "\<exists>before after. ?text = before @ toLowerCaseAscii [0xCC9C, 0xC655] @ after"
    by blast
  moreover have "[0xCC9C, 0xC655] \<in> set ?ks" by simp
  ultimately have "\<exists>kw\<in>set ?ks. \<exists>before after. ?text = before @ toLowerCaseAscii kw @ after"
    by (rule_tac x = "[0xCC9C, 0xC655]" in bexI)
  with ne matchesCertPoint_iff_keyword_occurs [of ?ks toLowerCaseAscii
      "[0xCC9C, 0xC655, 0xBD09, 0x0020, 0xCF54, 0xC2A4]" "[0xC9C0, 0xB9AC, 0xC0B0]"]
  show ?thesis by blast
qed



text \<open>
  C5 (summit keyword and empty result). For every label, keyword extraction returns the
  empty set if and only if the label is absent or the empty string, and for every
  non-empty label the result contains the summit keyword U+C815 U+C0C1.
\<close>

theorem extractCertKeywords_empty_iff:
  "(extractCertKeywords label = [] \<longleftrightarrow> label = None \<or> label = Some []) \<and>
   (\<forall>s. label = Some s \<and> s \<noteq> [] \<longrightarrow> [0xC815, 0xC0C1] \<in> set (extractCertKeywords label))"
proof (cases label)
  case None
  then show ?thesis by (simp add: extractCertKeywords_def)
next
  case (Some s)
  show ?thesis
  proof (cases "s = []")
    case True
    with Some show ?thesis by (simp add: extractCertKeywords_def)
  next
    case False
    then have "summitKeyword \<in> set (extractCertKeywords (Some s))"
      by (simp add: extract_set)
    moreover from this have "extractCertKeywords (Some s) \<noteq> []" by auto
    ultimately show ?thesis using Some False by (simp add: summitKeyword_def)
  qed
qed

theorem extractCertKeywords_empty_iff_witness:
  "extractCertKeywords (Some unmatched_label) \<noteq> [] \<and>
   [0xC815, 0xC0C1] \<in> set (extractCertKeywords (Some unmatched_label)) \<and>
   extractCertKeywords None = [] \<and> extractCertKeywords (Some []) = []"
  using extractCertKeywords_empty_iff [of "Some unmatched_label"]
    extractCertKeywords_empty_iff [of None] extractCertKeywords_empty_iff [of "Some []"]
  by (simp add: unmatched_label_def)

text \<open>
  C6 (suffix stripping). For every base keyword of length at least 3 whose last code unit
  is one of the three suffix characters U+BD09, U+C0B0, U+B300, the extracted keyword set
  contains the keyword and also the keyword without its last code unit, provided the
  shortened form has length at least 2. The label U+B178 U+C778 U+BD09 yields a set that
  contains U+B178 U+C778 U+BD09 and U+B178 U+C778.
\<close>

theorem suffix_stripping:
  "(\<forall>kw \<in> set (baseKeywords s).
      3 \<le> length kw \<and> last kw \<in> {0xBD09, 0xC0B0, 0xB300} \<and> 2 \<le> length (butlast kw) \<longrightarrow>
      kw \<in> set (extractCertKeywords (Some s)) \<and>
      butlast kw \<in> set (extractCertKeywords (Some s))) \<and>
   [0xB178, 0xC778, 0xBD09] \<in> set (extractCertKeywords (Some [0xB178, 0xC778, 0xBD09])) \<and>
   [0xB178, 0xC778] \<in> set (extractCertKeywords (Some [0xB178, 0xC778, 0xBD09]))"
proof (intro conjI ballI impI)
  fix kw assume kw: "kw \<in> set (baseKeywords s)"
    and h: "3 \<le> length kw \<and> last kw \<in> {0xBD09, 0xC0B0, 0xB300} \<and> 2 \<le> length (butlast kw)"
  from kw have ne: "s \<noteq> []"
    using baseKeywords_empty by auto
  from h have "endsWithSuffixChar kw"
    by (auto simp: endsWithSuffixChar_def suffixChars_def)
  with kw h ne show "kw \<in> set (extractCertKeywords (Some s))"
    and "butlast kw \<in> set (extractCertKeywords (Some s))"
    by (auto simp: extract_set)
next
  have e: "extractCertKeywords (Some [0xB178, 0xC778, 0xBD09]) =
      [[0xB178, 0xC778, 0xBD09], [0xB178, 0xC778], [0xC815, 0xC0C1]]"
    by code_simp
  show "[0xB178, 0xC778, 0xBD09] \<in> set (extractCertKeywords (Some [0xB178, 0xC778, 0xBD09]))"
    unfolding e by simp
  show "[0xB178, 0xC778] \<in> set (extractCertKeywords (Some [0xB178, 0xC778, 0xBD09]))"
    unfolding e by simp
qed

theorem suffix_stripping_witness:
  "[0xCC9C, 0xC655, 0xBD09] \<in> set (baseKeywords [0xC9C0, 0xB9AC, 0xC0B0, 0x0020, 0xCC9C, 0xC655, 0xBD09]) \<and>
   [0xCC9C, 0xC655] \<in>
     set (extractCertKeywords (Some [0xC9C0, 0xB9AC, 0xC0B0, 0x0020, 0xCC9C, 0xC655, 0xBD09]))"
proof -
  let ?s = "[0xC9C0, 0xB9AC, 0xC0B0, 0x0020, 0xCC9C, 0xC655, 0xBD09 :: jchar]"
  let ?kw = "[0xCC9C, 0xC655, 0xBD09 :: jchar]"
  have b: "baseKeywords ?s = [[0xC9C0, 0xB9AC, 0xC0B0], ?kw]"
    by code_simp
  then have m: "?kw \<in> set (baseKeywords ?s)" by simp
  have h: "3 \<le> length ?kw \<and> last ?kw \<in> {0xBD09, 0xC0B0, 0xB300} \<and> 2 \<le> length (butlast ?kw)"
    by simp
  from suffix_stripping [of ?s] m h
  have "butlast ?kw \<in> set (extractCertKeywords (Some ?s))" by blast
  with m show ?thesis by simp
qed

text \<open>
  C7 (result guarantee). For every label, absent and empty included, every string in the
  result of keyword extraction is non-empty, has length at least 2 and equals its own
  trimmed form. Keyword extraction is a total function (its split terminates on every
  string) and its result is always a list.
\<close>

theorem extractCertKeywords_result_guarantee:
  "\<forall>kw \<in> set (extractCertKeywords label). kw \<noteq> [] \<and> 2 \<le> length kw \<and> trim kw = kw"
proof
  fix kw assume a: "kw \<in> set (extractCertKeywords label)"
  from extract_keyword_shape [OF a] show "kw \<noteq> [] \<and> 2 \<le> length kw \<and> trim kw = kw"
    by (auto simp: trim_no_ws)
qed

theorem extractCertKeywords_result_guarantee_witness:
  "[0xC778, 0xC655] \<in> set (extractCertKeywords (Some example_label)) \<and>
   2 \<le> length [0xC778, 0xC655 :: jchar] \<and> trim [0xC778, 0xC655] = [0xC778, 0xC655]"
proof -
  have "extractCertKeywords (Some example_label) =
      [[0xC11C, 0xC11D, 0xB300], [0xC11C, 0xC11D], [0xC778, 0xC655, 0xBD09], [0xC778, 0xC655],
       [0xC815, 0xC0C1]]"
    by code_simp
  then have m: "[0xC778, 0xC655] \<in> set (extractCertKeywords (Some example_label))"
    by simp
  with extractCertKeywords_result_guarantee [of "Some example_label"] show ?thesis
    by blast
qed

text \<open>
  C9 (the separator). The claim that the separator between course name and detail can be
  replaced by any other string fails: with the course name U+CC9C U+C655, the detail
  U+BD09 and the keyword U+CC9C U+C655 U+BD09 the matcher, which puts one space between
  them, answers false, and with nothing between them the answer is true; with the keyword
  U+CC9C U+C655 U+0020 U+BD09 the matcher answers true and with a hyphen as separator the
  answer is false.
\<close>

theorem separator_counterexample:
  "matchesCertPoint toLowerCaseAscii [0xCC9C, 0xC655] [0xBD09] [[0xCC9C, 0xC655, 0xBD09]] = False \<and>
   matches_with_separator toLowerCaseAscii [0x20] [0xCC9C, 0xC655] [0xBD09]
     [[0xCC9C, 0xC655, 0xBD09]] = False \<and>
   matches_with_separator toLowerCaseAscii [] [0xCC9C, 0xC655] [0xBD09]
     [[0xCC9C, 0xC655, 0xBD09]] = True \<and>
   matches_with_separator toLowerCaseAscii [0x20] [0xCC9C, 0xC655] [0xBD09]
     [[0xCC9C, 0xC655, 0x20, 0xBD09]] = True \<and>
   matches_with_separator toLowerCaseAscii [0x2D] [0xCC9C, 0xC655] [0xBD09]
     [[0xCC9C, 0xC655, 0x20, 0xBD09]] = False"
  by code_simp

text \<open>
  C9 as amended. The matcher is the embedding with one space as separator. The result is
  unchanged when one separator is replaced by another, provided that lower-casing the text
  is lower-casing the name, the separator and the detail one after the other, that both
  lower-cased separators are non-empty, and that no lower-cased keyword has a code unit in
  common with either lower-cased separator.
\<close>

theorem separator_immaterial_when_disjoint:
  assumes "lc (n @ sep1 @ d) = lc n @ lc sep1 @ lc d"
    and "lc (n @ sep2 @ d) = lc n @ lc sep2 @ lc d"
    and "lc sep1 \<noteq> []" and "lc sep2 \<noteq> []"
    and "\<forall>kw\<in>set ks. set (lc kw) \<inter> (set (lc sep1) \<union> set (lc sep2)) = {}"
  shows "matches_with_separator lc sep1 n d ks = matches_with_separator lc sep2 n d ks \<and>
         matchesCertPoint lc n d ks = matches_with_separator lc [0x20] n d ks"
proof
  have "sublist (lc kw) (lc (n @ sep1 @ d)) \<longleftrightarrow> sublist (lc kw) (lc (n @ sep2 @ d))"
    if "kw \<in> set ks" for kw
  proof -
    from that assms(5) have d1: "set (lc kw) \<inter> set (lc sep1) = {}"
      and d2: "set (lc kw) \<inter> set (lc sep2) = {}" by blast+
    show ?thesis
      unfolding assms(1) assms(2)
      by (simp add: sublist_across_separator [OF d1 assms(3)]
          sublist_across_separator [OF d2 assms(4)])
  qed
  then show "matches_with_separator lc sep1 n d ks = matches_with_separator lc sep2 n d ks"
    by (simp add: matches_with_separator_sublist cong: bex_cong)
  show "matchesCertPoint lc n d ks = matches_with_separator lc [0x20] n d ks"
    by (rule matchesCertPoint_separator)
qed

theorem separator_immaterial_when_disjoint_witness:
  "matches_with_separator toLowerCaseAscii [0x20] [0xCC9C, 0xC655, 0xBD09, 0xCF54, 0xC2A4]
      [0xC9C0, 0xB9AC, 0xC0B0] [[0xCC9C, 0xC655, 0xBD09], [0xCC9C, 0xC655], [0xC815, 0xC0C1]] =
   matches_with_separator toLowerCaseAscii [0x2D] [0xCC9C, 0xC655, 0xBD09, 0xCF54, 0xC2A4]
      [0xC9C0, 0xB9AC, 0xC0B0] [[0xCC9C, 0xC655, 0xBD09], [0xCC9C, 0xC655], [0xC815, 0xC0C1]]"
proof -
  let ?n = "[0xCC9C, 0xC655, 0xBD09, 0xCF54, 0xC2A4 :: jchar]"
  let ?d = "[0xC9C0, 0xB9AC, 0xC0B0 :: jchar]"
  let ?ks = "[[0xCC9C, 0xC655, 0xBD09], [0xCC9C, 0xC655], [0xC815, 0xC0C1 :: jchar]]"
  have lc: "toLowerCaseAscii (xs @ ys) = toLowerCaseAscii xs @ toLowerCaseAscii ys" for xs ys
    by (simp add: toLowerCaseAscii_def)
  have h1: "toLowerCaseAscii (?n @ [0x20] @ ?d) =
      toLowerCaseAscii ?n @ toLowerCaseAscii [0x20] @ toLowerCaseAscii ?d"
    by (simp only: lc)
  have h2: "toLowerCaseAscii (?n @ [0x2D] @ ?d) =
      toLowerCaseAscii ?n @ toLowerCaseAscii [0x2D] @ toLowerCaseAscii ?d"
    by (simp only: lc)
  have s1: "toLowerCaseAscii [0x20] = [0x20]" and s2: "toLowerCaseAscii [0x2D] = [0x2D]"
    by (simp_all add: toLowerCaseAscii_def)
  have h3: "toLowerCaseAscii [0x20] \<noteq> []" and h4: "toLowerCaseAscii [0x2D] \<noteq> []"
    unfolding s1 s2 by simp_all
  have ks: "\<forall>kw\<in>set ?ks.
      set (toLowerCaseAscii kw) \<inter> (set (toLowerCaseAscii [0x20]) \<union> set (toLowerCaseAscii [0x2D])) = {}"
    unfolding s1 s2 by (simp add: toLowerCaseAscii_def)
  from separator_immaterial_when_disjoint [OF h1 h2 h3 h4 ks]
  show ?thesis by (rule conjunct1)
qed

text \<open>
  C10 (course toggle: frame and involution). For every selection and every course index
  \<open>i\<close>, \<open>toggleCourse i\<close> flips the membership of \<open>i\<close> and leaves the membership of every
  other index as it was; applied twice it gives back the selection, and the whole state,
  it started from.
\<close>

theorem toggleCourse_frame_involution:
  "(\<forall>j. j \<noteq> i \<longrightarrow> (j \<in> selectedCourses (toggleCourse i st) \<longleftrightarrow> j \<in> selectedCourses st)) \<and>
   (i \<in> selectedCourses (toggleCourse i st) \<longleftrightarrow> i \<notin> selectedCourses st) \<and>
   selectedCourses (toggleCourse i (toggleCourse i st)) = selectedCourses st \<and>
   toggleCourse i (toggleCourse i st) = st"
  by (auto simp: toggleCourse_def Let_def insert_absorb)

theorem toggleCourse_frame_involution_witness:
  "(2 \<in> selectedCourses (toggleCourse 1 (loading_state\<lparr>selectedCourses := {0, 2}\<rparr>)) \<longleftrightarrow>
      2 \<in> selectedCourses (loading_state\<lparr>selectedCourses := {0, 2}\<rparr>)) \<and>
   1 \<in> selectedCourses (toggleCourse 1 (loading_state\<lparr>selectedCourses := {0, 2}\<rparr>)) \<and>
   toggleCourse 1 (toggleCourse 1 (loading_state\<lparr>selectedCourses := {0, 2}\<rparr>)) =
     loading_state\<lparr>selectedCourses := {0, 2}\<rparr>"
  using toggleCourse_frame_involution [of 1 "loading_state\<lparr>selectedCourses := {0, 2}\<rparr>"]
  by simp

end
